theory Spec2Isabelle
  imports Complex_Main "HOL-Library.Word"
begin

section \<open>Values of the language\<close>

text \<open>
  The functions of \<^verbatim>\<open>src/probles.ts\<close> work on strings, numbers, arrays and objects
  of JavaScript. A string is a sequence of 16-bit code units, and its \<^verbatim>\<open>length\<close> counts
  them. The literals of the source are ASCII; \<open>lit\<close> turns such a literal into its
  code units.
\<close>

type_synonym code_unit = "16 word"
type_synonym js_string = "code_unit list"

definition lit :: "string \<Rightarrow> js_string" where
  "lit s = map of_char s"

text \<open>
  A number is an IEEE double: not-a-number, the two infinities, or a finite value.
  The finite values are embedded in the reals; \<open>is_double\<close> holds of the reals that
  are doubles, \<open>m * 2 ^ e\<close> with \<open>\<bar>m\<bar> < 2 ^ 53\<close> and \<open>- 1074 \<le> e \<le> 971\<close>. One thing of the
  double format is left out, the sign of zero (the comparisons of the language treat
  both zeros as equal). Every finite double is a real, so what is proved for all
  numbers of this type holds for all doubles.
\<close>

datatype number = NaN | NegInf | Fin real | PosInf

text \<open>
  The comparison of two numbers is undefined (None) when one of them is NaN. The
  relational operators are built on it: \<^verbatim>\<open>x < y\<close> and \<^verbatim>\<open>x > y\<close> hold when the comparison
  (of \<open>x\<close> with \<open>y\<close>, or of \<open>y\<close> with \<open>x\<close>) is true; \<^verbatim>\<open>x >= y\<close> holds when the comparison of
  \<open>x\<close> with \<open>y\<close> is false (neither true nor undefined).
\<close>

fun IsLessThan :: "number \<Rightarrow> number \<Rightarrow> bool option" where
  "IsLessThan NaN y = None"
| "IsLessThan x NaN = None"
| "IsLessThan PosInf y = Some False"
| "IsLessThan x PosInf = Some True"
| "IsLessThan x NegInf = Some False"
| "IsLessThan NegInf y = Some True"
| "IsLessThan (Fin a) (Fin b) = Some (a < b)"

definition js_lt :: "number \<Rightarrow> number \<Rightarrow> bool" where
  "js_lt x y = (IsLessThan x y = Some True)"

definition js_gt :: "number \<Rightarrow> number \<Rightarrow> bool" where
  "js_gt x y = (IsLessThan y x = Some True)"

definition js_ge :: "number \<Rightarrow> number \<Rightarrow> bool" where
  "js_ge x y = (IsLessThan x y = Some False)"

definition is_double :: "real \<Rightarrow> bool" where
  "is_double x = (\<exists>m e. \<bar>m\<bar> < 2 ^ 53 \<and> - 1074 \<le> e \<and> e \<le> 971 \<and> x = of_int m * 2 powi e)"

text \<open>
  The result of an arithmetic operation is the exact result rounded to the nearest
  double, a tie going to the even significand. The doubles around \<open>a > 0\<close> are the
  multiples of \<open>2 ^ e\<close>, where \<open>e\<close> is the exponent of the leading bit of \<open>a\<close> (found by
  halving or doubling \<open>a\<close> until it lies between 1 and 2) less 52, and not below
  \<open>- 1074\<close> (the subnormal range). A value that rounds to \<open>2 ^ 1024\<close> or more overflows to
  the infinity of its sign; a value that rounds to 0 underflows.
\<close>

definition round_half_even :: "real \<Rightarrow> int" where
  "round_half_even y =
     (let f = \<lfloor>y\<rfloor>; d = y - of_int f
      in if d < 1 / 2 then f else if 1 / 2 < d then f + 1 else if even f then f else f + 1)"

function leading_exponent :: "real \<Rightarrow> int" where
  "leading_exponent a =
     (if 2 \<le> a then leading_exponent (a / 2) + 1
      else if 0 < a \<and> a < 1 then leading_exponent (a * 2) - 1
      else 0)"
  by pat_completeness auto
termination
proof (relation "measure (\<lambda>a. nat \<bar>\<lfloor>log 2 a\<rfloor>\<bar>)")
  show "wf (measure (\<lambda>a. nat \<bar>\<lfloor>log 2 a\<rfloor>\<bar>))"
    by simp
next
  fix a :: real
  assume a: "2 \<le> a"
  then have "log 2 (a / 2) = log 2 a - 1"
    by (simp add: log_divide)
  moreover have "1 \<le> log 2 a"
    using a by simp
  then have "1 \<le> \<lfloor>log 2 a\<rfloor>"
    by (simp add: le_floor_iff)
  ultimately show "(a / 2, a) \<in> measure (\<lambda>a. nat \<bar>\<lfloor>log 2 a\<rfloor>\<bar>)"
    by simp
next
  fix a :: real
  assume "\<not> 2 \<le> a" and a: "0 < a \<and> a < 1"
  then have "log 2 (a * 2) = log 2 a + 1"
    by (simp add: log_mult)
  then have up: "\<lfloor>log 2 (a * 2)\<rfloor> = \<lfloor>log 2 a\<rfloor> + 1"
    by simp
  have "log 2 a < 0"
    using a by simp
  then have neg: "\<lfloor>log 2 a\<rfloor> < 0"
    by (simp add: floor_less_iff)
  show "(a * 2, a) \<in> measure (\<lambda>a. nat \<bar>\<lfloor>log 2 a\<rfloor>\<bar>)"
    unfolding in_measure up using neg by arith
qed

declare leading_exponent.simps [simp del]

definition double_exponent :: "real \<Rightarrow> int" where
  "double_exponent a = max (leading_exponent a - 52) (- 1074)"

definition round_double :: "real \<Rightarrow> number" where
  "round_double x =
     (if x = 0 then Fin 0
      else let e = double_exponent \<bar>x\<bar>;
               r = of_int (round_half_even (\<bar>x\<bar> / 2 powi e)) * 2 powi e
           in if 2 ^ 1024 \<le> r then (if x < 0 then NegInf else PosInf)
              else Fin (if x < 0 then - r else r))"

fun num_sign :: "number \<Rightarrow> int" where
  "num_sign NaN = 0"
| "num_sign NegInf = - 1"
| "num_sign PosInf = 1"
| "num_sign (Fin a) = (if a < 0 then - 1 else if a = 0 then 0 else 1)"

text \<open>
  The product \<^verbatim>\<open>x * y\<close>: NaN if an operand is NaN or if an infinity meets zero; an
  infinity of the product's sign if an operand is infinite; the product of the values,
  rounded to a double, otherwise.
\<close>

fun num_mul :: "number \<Rightarrow> number \<Rightarrow> number" where
  "num_mul NaN y = NaN"
| "num_mul x NaN = NaN"
| "num_mul (Fin a) (Fin b) = round_double (a * b)"
| "num_mul x y =
     (if num_sign x = 0 \<or> num_sign y = 0 then NaN
      else if num_sign x = num_sign y then PosInf else NegInf)"

text \<open>
  An expression either yields a value or throws. The source throws one error of its
  own, an \<^verbatim>\<open>Error\<close> with a message; the language's \<^verbatim>\<open>TypeError\<close> arises in the
  operators and the array methods.
\<close>

datatype js_error = Error js_string | TypeError

datatype 'a completion = Normal 'a | Throw js_error

section \<open>Problem 7: the Day enum and getDayType\<close>

datatype Day = Monday | Tuesday | Wednesday | Thursday | Friday | Saturday | Sunday

definition getDayType :: "Day \<Rightarrow> js_string" where
  "getDayType day =
     (if day = Saturday \<or> day = Sunday then lit ''Weekend'' else lit ''Weekday'')"

section \<open>Problem 5: processValue\<close>

text \<open>
  The parameter of \<open>processValue\<close> has the type \<^verbatim>\<open>string | number\<close>. The type is erased
  when the program runs, so the function is modelled on the values of the language:
  the primitive values, and the objects. The source can observe one thing of an
  object, what its conversion to a number for \<^verbatim>\<open>*\<close> gives (the language calls the
  object's \<^verbatim>\<open>valueOf\<close> and \<^verbatim>\<open>toString\<close> and converts the primitive they return): a number,
  or an exception, which is a TypeError when the object has no primitive value, as
  \<^verbatim>\<open>Object.create(null)\<close>. So an object is represented by that outcome, and by whether it
  is callable, which \<^verbatim>\<open>typeof\<close> tells. For \<^verbatim>\<open>{}\<close> the outcome is NaN, for \<^verbatim>\<open>[3]\<close> it is 3.
  \<open>typeof\<close> gives the tag that the source compares with \<^verbatim>\<open>"string"\<close>.
\<close>

datatype js_value =
    JUndefined
  | JNull
  | JBool bool
  | JNum number
  | JStr js_string
  | JSymbol
  | JBigInt int
  | JObject bool "number completion"

datatype js_type =
  TUndefined | TObject | TBoolean | TNumber | TString | TSymbol | TBigint | TFunction

fun typeof :: "js_value \<Rightarrow> js_type" where
  "typeof JUndefined = TUndefined"
| "typeof JNull = TObject"
| "typeof (JBool b) = TBoolean"
| "typeof (JNum n) = TNumber"
| "typeof (JStr s) = TString"
| "typeof JSymbol = TSymbol"
| "typeof (JBigInt i) = TBigint"
| "typeof (JObject callable outcome) = (if callable then TFunction else TObject)"

text \<open>
  \<^verbatim>\<open>typeof value === "string" ? value.length : value * 2\<close>. A string takes the first
  branch. Every other value takes the second, where \<^verbatim>\<open>*\<close> converts its left operand to
  a number first: a number is itself, \<^verbatim>\<open>undefined\<close> is NaN, \<^verbatim>\<open>null\<close> is 0, \<^verbatim>\<open>true\<close> is 1
  and \<^verbatim>\<open>false\<close> is 0; a symbol cannot be converted and a bigint cannot be multiplied
  with a number, and both throw a TypeError; an object is converted as said above, and
  an exception of the conversion is the exception of the call.
\<close>

fun processValue :: "js_value \<Rightarrow> number completion" where
  "processValue (JStr s) = Normal (Fin (real (length s)))"
| "processValue (JNum n) = Normal (num_mul n (Fin 2))"
| "processValue JUndefined = Normal (num_mul NaN (Fin 2))"
| "processValue JNull = Normal (num_mul (Fin 0) (Fin 2))"
| "processValue (JBool b) = Normal (num_mul (Fin (if b then 1 else 0)) (Fin 2))"
| "processValue JSymbol = Throw TypeError"
| "processValue (JBigInt i) = Throw TypeError"
| "processValue (JObject callable (Normal x)) = Normal (num_mul x (Fin 2))"
| "processValue (JObject callable (Throw e)) = Throw e"

section \<open>Problem 2: filterByRating\<close>

record RatedItem =
  title :: js_string
  rating :: number

text \<open>
  \<^verbatim>\<open>Array.prototype.filter\<close> visits the elements from index 0 upwards and appends to a
  new array each element on which the callback holds.
\<close>

fun filter_loop :: "('a \<Rightarrow> bool) \<Rightarrow> 'a list \<Rightarrow> 'a list \<Rightarrow> 'a list" where
  "filter_loop p [] A = A"
| "filter_loop p (x # xs) A = filter_loop p xs (if p x then A @ [x] else A)"

definition Array_filter :: "('a \<Rightarrow> bool) \<Rightarrow> 'a list \<Rightarrow> 'a list" where
  "Array_filter p xs = filter_loop p xs []"

definition filterByRating :: "RatedItem list \<Rightarrow> RatedItem list" where
  "filterByRating items = Array_filter (\<lambda>item. js_ge (rating item) (Fin 4)) items"

section \<open>Problem 3: concatenateArrays\<close>

text \<open>
  An element of an array of type \<^verbatim>\<open>T[]\<close> may be an array itself (when \<^verbatim>\<open>T\<close> is an array
  type), so the elements are trees. \<^verbatim>\<open>Array.prototype.flat\<close> copies the elements in
  order; an element that is an array is replaced by its own elements, flattened with
  a depth one less, as long as the depth is positive. The source calls \<^verbatim>\<open>flat()\<close> with
  the default depth 1 on the array of its arguments.
\<close>

datatype 'a element = Item 'a | Arr "'a element list"

fun FlattenIntoArray :: "nat \<Rightarrow> 'a element list \<Rightarrow> 'a element list" where
  "FlattenIntoArray depth [] = []"
| "FlattenIntoArray depth (Item a # rest) = Item a # FlattenIntoArray depth rest"
| "FlattenIntoArray 0 (Arr xs # rest) = Arr xs # FlattenIntoArray 0 rest"
| "FlattenIntoArray (Suc depth) (Arr xs # rest) =
     FlattenIntoArray depth xs @ FlattenIntoArray (Suc depth) rest"

definition Array_flat :: "'a element list \<Rightarrow> 'a element list" where
  "Array_flat xs = FlattenIntoArray 1 xs"

definition concatenateArrays :: "'a element list \<Rightarrow> 'a element list" where
  "concatenateArrays arrays = Array_flat arrays"

section \<open>Problem 4: the classes Vehicle and Car\<close>

text \<open>
  A template literal converts an interpolated number to a string. For a safe integer
  (an integer of absolute value below \<open>2 ^ 53\<close>) the conversion gives the decimal digits,
  with a minus sign for a negative one (the shortest decimal that reads back as such a
  double is the numeral of the integer). For any other finite number it gives the
  shortest decimal that reads back as the same double; these digits depend on the
  rounding of doubles and are a parameter, \<open>shortest\<close>.
\<close>

definition digit_char :: "nat \<Rightarrow> char" where
  "digit_char d = ''0123456789'' ! d"

function decimal :: "nat \<Rightarrow> string" where
  "decimal n = (if n < 10 then [digit_char n] else decimal (n div 10) @ [digit_char (n mod 10)])"
  by pat_completeness auto
termination
  by (relation "measure id") auto

declare decimal.simps [simp del]

definition is_safe_integer :: "real \<Rightarrow> bool" where
  "is_safe_integer r = (of_int \<lfloor>r\<rfloor> = r \<and> \<bar>r\<bar> < 2 ^ 53)"

definition Number_toString :: "(real \<Rightarrow> string) \<Rightarrow> number \<Rightarrow> string" where
  "Number_toString shortest x =
     (case x of
        NaN \<Rightarrow> ''NaN''
      | NegInf \<Rightarrow> ''-Infinity''
      | PosInf \<Rightarrow> ''Infinity''
      | Fin r \<Rightarrow>
          if is_safe_integer r
          then (if r < 0 then ''-'' @ decimal (nat \<lfloor>- r\<rfloor>) else decimal (nat \<lfloor>r\<rfloor>))
          else shortest r)"

text \<open>
  The fields of a class are the fields of a record, and the subclass is the record
  extended: a function on \<open>'a Vehicle_scheme\<close> applies to a \<open>Car\<close> as the inherited
  method does. The constructor of \<open>Car\<close> calls the one of \<open>Vehicle\<close> and adds its field.
  (The field \<^verbatim>\<open>make\<close> is \<open>make_field\<close> here: a record has a constant \<open>make\<close> of its own.)
\<close>

record Vehicle =
  make_field :: js_string
  year :: number

record Car = Vehicle +
  model :: js_string

definition new_Vehicle :: "js_string \<Rightarrow> number \<Rightarrow> Vehicle" where
  "new_Vehicle mk yr = \<lparr>make_field = mk, year = yr\<rparr>"

definition new_Car :: "js_string \<Rightarrow> number \<Rightarrow> js_string \<Rightarrow> Car" where
  "new_Car mk yr md = Vehicle.extend (new_Vehicle mk yr) (Car.fields md)"

definition getInfo :: "(real \<Rightarrow> string) \<Rightarrow> 'a Vehicle_scheme \<Rightarrow> js_string" where
  "getInfo shortest this =
     lit ''Make: '' @ make_field this @ lit '', Year: '' @ lit (Number_toString shortest (year this))"

definition getModel :: "'a Car_scheme \<Rightarrow> js_string" where
  "getModel this = lit ''Model: '' @ model this"

section \<open>Problem 6: getMostExpensiveProduct\<close>

record Product =
  name :: js_string
  price :: number

text \<open>
  \<^verbatim>\<open>Array.prototype.reduce\<close> without an initial value throws a TypeError on the empty
  array; otherwise it starts with the first element and applies the callback to the
  accumulator and each later element, from left to right. \<^verbatim>\<open>null\<close> is \<open>None\<close>.
\<close>

definition Array_reduce :: "('a \<Rightarrow> 'a \<Rightarrow> 'a) \<Rightarrow> 'a list \<Rightarrow> 'a completion" where
  "Array_reduce f xs = (case xs of [] \<Rightarrow> Throw TypeError | x # rest \<Rightarrow> Normal (foldl f x rest))"

definition getMostExpensiveProduct :: "Product list \<Rightarrow> Product option completion" where
  "getMostExpensiveProduct products =
     (if length products = 0 then Normal None
      else (case Array_reduce (\<lambda>max item. if js_gt (price item) (price max) then item else max)
                   products of
              Throw e \<Rightarrow> Throw e
            | Normal p \<Rightarrow> Normal (Some p)))"

section \<open>Problem 8: squareAsync\<close>

text \<open>
  A promise is pending, fulfilled with a value or rejected with an error. The only
  way the source settles a pending promise later is a timer whose callback calls
  \<^verbatim>\<open>resolve\<close> with a value, so a promise carries the timers scheduled for it: the delay
  in milliseconds and the value passed to \<^verbatim>\<open>resolve\<close>.
\<close>

datatype promise_state = Pending | Fulfilled number | Rejected js_error

type_synonym timer = "nat \<times> number"

record promise =
  pstate :: promise_state
  ptimers :: "timer list"

text \<open>
  The body of the function: the check throws; otherwise the executor of the new
  promise runs at once and schedules one timer, \<^verbatim>\<open>setTimeout(() => resolve(n * n), 1000)\<close>.
\<close>

definition squareAsync_body :: "number \<Rightarrow> promise completion" where
  "squareAsync_body n =
     (if js_lt n (Fin 0) then Throw (Error (lit ''Negative number not allowed''))
      else Normal \<lparr>pstate = Pending, ptimers = [(1000, num_mul n n)]\<rparr>)"

text \<open>
  A call of an \<^verbatim>\<open>async\<close> function always returns a promise to its caller. An exception
  thrown by the body rejects that promise (no timer is involved). When the body
  returns a promise, the promise of the call settles as the returned one does; the
  model identifies the two.
\<close>

fun async_function :: "promise completion \<Rightarrow> promise completion" where
  "async_function (Throw e) = Normal \<lparr>pstate = Rejected e, ptimers = []\<rparr>"
| "async_function (Normal p) = Normal p"

definition squareAsync :: "number \<Rightarrow> promise completion" where
  "squareAsync n = async_function (squareAsync_body n)"

text \<open>
  \<^verbatim>\<open>resolve\<close> settles a pending promise and does nothing on a settled one. \<open>run_timers t p\<close>
  is the state of \<open>p\<close> once the event loop has run the callback of every timer whose
  delay is at most \<open>t\<close> milliseconds.
\<close>

fun resolve :: "promise_state \<Rightarrow> number \<Rightarrow> promise_state" where
  "resolve Pending v = Fulfilled v"
| "resolve s v = s"

definition run_timers :: "nat \<Rightarrow> promise \<Rightarrow> promise_state" where
  "run_timers t p = foldl (\<lambda>s (d, v). if d \<le> t then resolve s v else s) (pstate p) (ptimers p)"

section \<open>Theorems\<close>

subsection \<open>Rounding to a double\<close>

text \<open>
  The leading bit of \<open>a > 0\<close> is at the exponent \<open>\<lfloor>log 2 a\<rfloor>\<close>.
\<close>

lemma floor_log2_bounds:
  assumes "0 < a"
  shows "2 powi \<lfloor>log 2 a\<rfloor> \<le> a" and "a < 2 powi (\<lfloor>log 2 a\<rfloor> + 1)"
proof -
  have "(2::real) powr \<lfloor>log 2 a\<rfloor> \<le> a \<and> a < 2 powr (\<lfloor>log 2 a\<rfloor> + 1)"
    using floor_log_eq_powr_iff [of a 2 "\<lfloor>log 2 a\<rfloor>"] assms by simp
  moreover have "(2::real) powr real_of_int \<lfloor>log 2 a\<rfloor> = 2 powi \<lfloor>log 2 a\<rfloor>"
    by (rule powr_real_of_int') simp_all
  moreover have "(2::real) powr real_of_int (\<lfloor>log 2 a\<rfloor> + 1) = 2 powi (\<lfloor>log 2 a\<rfloor> + 1)"
    by (rule powr_real_of_int') simp_all
  ultimately show "2 powi \<lfloor>log 2 a\<rfloor> \<le> a" and "a < 2 powi (\<lfloor>log 2 a\<rfloor> + 1)"
    by simp_all
qed

lemma floor_log2_eq:
  assumes "2 powi k \<le> a" and "a < 2 powi (k + 1)"
  shows "\<lfloor>log 2 a\<rfloor> = k"
proof -
  have "0 < (2::real) powi k" by simp
  with assms(1) have a: "0 < a" by linarith
  have "(2::real) powr real_of_int k = 2 powi k"
    by (rule powr_real_of_int') simp_all
  moreover have "(2::real) powr real_of_int (k + 1) = 2 powi (k + 1)"
    by (rule powr_real_of_int') simp_all
  ultimately have "2 powr real_of_int k \<le> a \<and> a < 2 powr (real_of_int k + 1)"
    using assms by simp
  then show ?thesis
    using floor_log_eq_powr_iff [of a 2 k] a by simp
qed

text \<open>
  The search for the leading bit finds it.
\<close>

lemma leading_exponent_log: "0 < a \<Longrightarrow> leading_exponent a = \<lfloor>log 2 a\<rfloor>"
proof (induction a rule: leading_exponent.induct)
  case (1 a)
  show ?case
  proof (cases "2 \<le> a")
    case True
    then have "leading_exponent (a / 2) = \<lfloor>log 2 (a / 2)\<rfloor>"
      using "1.IH"(1) by simp
    moreover have "log 2 (a / 2) = log 2 a - 1"
      using True by (simp add: log_divide)
    ultimately show ?thesis
      using True by (subst leading_exponent.simps) simp
  next
    case False
    show ?thesis
    proof (cases "a < 1")
      case True
      then have "leading_exponent (a * 2) = \<lfloor>log 2 (a * 2)\<rfloor>"
        using "1.IH"(2) False "1.prems" by simp
      moreover have "log 2 (a * 2) = log 2 a + 1"
        using "1.prems" by (simp add: log_mult)
      ultimately show ?thesis
        using True False "1.prems" by (subst leading_exponent.simps) simp
    next
      case False
      with \<open>\<not> 2 \<le> a\<close> have "2 powi 0 \<le> a" and "a < 2 powi (0 + 1)"
        by simp_all
      then have "\<lfloor>log 2 a\<rfloor> = 0"
        by (rule floor_log2_eq)
      then show ?thesis
        using False \<open>\<not> 2 \<le> a\<close> by (subst leading_exponent.simps) simp
    qed
  qed
qed

lemma double_exponent_log: "0 < a \<Longrightarrow> double_exponent a = max (\<lfloor>log 2 a\<rfloor> - 52) (- 1074)"
  by (simp add: double_exponent_def leading_exponent_log)

lemma round_half_even_int: "round_half_even (of_int m) = m"
  by (simp add: round_half_even_def)

lemma round_half_even_ge: "of_int k \<le> y \<Longrightarrow> k \<le> round_half_even y"
  using le_floor_iff [of k y] by (auto simp: round_half_even_def Let_def)

lemma powi2_less_iff: "(2::real) powi m < 2 powi n \<longleftrightarrow> m < n"
proof
  assume "(2::real) powi m < 2 powi n"
  show "m < n"
  proof (rule ccontr)
    assume "\<not> m < n"
    then have "n \<le> m" by simp
    then have "(2::real) powi n \<le> 2 powi m"
      by (rule power_int_increasing) simp
    with \<open>(2::real) powi m < 2 powi n\<close> show False by simp
  qed
next
  assume "m < n"
  then show "(2::real) powi m < 2 powi n"
    by (rule power_int_strict_increasing) simp
qed

lemma powi2_le_iff: "(2::real) powi m \<le> 2 powi n \<longleftrightarrow> m \<le> n"
  using powi2_less_iff [of n m] by (auto simp: not_less [symmetric])

lemma powi2_split: "k \<le> e \<Longrightarrow> (2::real) powi e = of_int (2 ^ nat (e - k)) * 2 powi k"
proof -
  assume "k \<le> e"
  then have nat: "(2::real) powi (e - k) = 2 ^ nat (e - k)"
    by (simp add: power_int_def)
  have "(2::real) powi e = 2 powi ((e - k) + k)"
    by simp
  also have "\<dots> = 2 powi (e - k) * 2 powi k"
    by (rule power_int_add) simp
  finally show ?thesis
    by (simp add: nat)
qed

lemma double_exponent_le:
  assumes "0 < a" and "a < 2 powi (e + 53)" and "- 1074 \<le> e"
  shows "double_exponent a \<le> e"
proof -
  from floor_log2_bounds(1) [OF assms(1)] assms(2)
  have "(2::real) powi \<lfloor>log 2 a\<rfloor> < 2 powi (e + 53)" by simp
  then have "\<lfloor>log 2 a\<rfloor> < e + 53" by (simp only: powi2_less_iff)
  with assms(1,3) show ?thesis by (simp add: double_exponent_log)
qed

text \<open>
  Rounding is the identity on the doubles, and gives an infinity from \<open>2 ^ 1024\<close> on.
\<close>

lemma round_double_unfold:
  assumes "x \<noteq> 0" and "a = \<bar>x\<bar>" and "double_exponent a = k"
    and "of_int (round_half_even (a / 2 powi k)) * 2 powi k = r"
  shows "round_double x =
    (if 2 ^ 1024 \<le> r then (if x < 0 then NegInf else PosInf) else Fin (if x < 0 then - r else r))"
  using assms by (simp only: round_double_def Let_def if_False)

lemma round_double_exact:
  assumes "is_double x"
  shows "round_double x = Fin x"
proof (cases "x = 0")
  case True
  then show ?thesis by (simp add: round_double_def)
next
  case False
  from assms obtain m e where m: "\<bar>m\<bar> < 2 ^ 53" and e: "- 1074 \<le> e" "e \<le> 971"
    and x: "x = of_int m * 2 powi e"
    by (auto simp: is_double_def)
  have pos: "0 < (2::real) powi k" for k by simp
  define a where "a = \<bar>x\<bar>"
  have a: "a = of_int \<bar>m\<bar> * 2 powi e"
    by (simp add: a_def x abs_mult)
  have "0 < a" using False by (simp add: a_def)
  have "of_int \<bar>m\<bar> < (2::real) ^ 53"
    using m by (metis of_int_less_iff of_int_numeral of_int_power)
  then have "a < 2 ^ 53 * 2 powi e"
    unfolding a using pos [of e] by (simp only: mult_strict_right_mono)
  also have "\<dots> = 2 powi (e + 53)"
    by (simp add: power_int_add)
  finally have less: "a < 2 powi (e + 53)" .
  define k where "k = double_exponent a"
  have ke: "k \<le> e"
    unfolding k_def using \<open>0 < a\<close> less e(1) by (rule double_exponent_le)
  have "a = of_int (\<bar>m\<bar> * 2 ^ nat (e - k)) * 2 powi k"
    unfolding a by (subst powi2_split [OF ke]) simp
  then have quot: "a / 2 powi k = of_int (\<bar>m\<bar> * 2 ^ nat (e - k))"
    using pos [of k] by (simp add: field_simps)
  have r: "of_int (round_half_even (a / 2 powi k)) * 2 powi k = a"
    unfolding quot round_half_even_int using quot pos [of k] by (simp add: field_simps)
  have "(2::real) powi (e + 53) \<le> 2 powi 1024"
    using e(2) by (simp only: powi2_le_iff)
  with less have small: "\<not> 2 ^ 1024 \<le> a" by simp
  have "round_double x = Fin (if x < 0 then - a else a)"
    using round_double_unfold [OF False a_def k_def [symmetric] r] small by (simp only: if_False)
  then show ?thesis
    by (simp add: a_def)
qed

lemma round_double_overflow:
  assumes "2 ^ 1024 \<le> \<bar>x\<bar>"
  shows "round_double x = (if x < 0 then NegInf else PosInf)"
proof -
  define a where "a = \<bar>x\<bar>"
  have big: "(2::real) powi 1024 \<le> a" using assms by (simp add: a_def)
  then have "0 < a" using zero_less_power_int [of "2::real" 1024] by linarith
  then have nz: "x \<noteq> 0" by (auto simp: a_def)
  define L where "L = \<lfloor>log 2 a\<rfloor>"
  have lo: "2 powi L \<le> a" and hi: "a < 2 powi (L + 1)"
    unfolding L_def using floor_log2_bounds [OF \<open>0 < a\<close>] by simp_all
  from big hi have "(2::real) powi 1024 < 2 powi (L + 1)" by simp
  then have L: "1024 \<le> L" by (simp only: powi2_less_iff)
  have "double_exponent a = max (L - 52) (- 1074)"
    using \<open>0 < a\<close> by (simp only: double_exponent_log L_def)
  with L have k: "double_exponent a = L - 52"
    by simp
  have pos: "0 < (2::real) powi k" for k by simp
  have split: "(2::real) powi L = of_int (2 ^ 52) * 2 powi (L - 52)"
    using powi2_split [of "L - 52" L] by simp
  with lo have "of_int (2 ^ 52) * 2 powi (L - 52) \<le> a" by simp
  then have "of_int (2 ^ 52) \<le> a / 2 powi (L - 52)"
    using pos [of "L - 52"] by (simp add: field_simps)
  then have "2 ^ 52 \<le> round_half_even (a / 2 powi (L - 52))"
    by (rule round_half_even_ge)
  then have "(of_int (2 ^ 52) :: real) \<le> of_int (round_half_even (a / 2 powi (L - 52)))"
    by (simp only: of_int_le_iff)
  then have step: "(of_int (2 ^ 52) :: real) * 2 powi (L - 52)
      \<le> of_int (round_half_even (a / 2 powi (L - 52))) * 2 powi (L - 52)"
    by (rule mult_right_mono) simp
  have "(2::real) ^ 1024 = 2 powi 1024"
    by simp
  also have "\<dots> \<le> 2 powi L"
    using L by (simp only: powi2_le_iff)
  also have "\<dots> = of_int (2 ^ 52) * 2 powi (L - 52)"
    by (rule split)
  also note step
  finally have "(2::real) ^ 1024 \<le> of_int (round_half_even (a / 2 powi (L - 52))) * 2 powi (L - 52)" .
  with round_double_unfold [OF nz a_def k refl] show ?thesis
    by (simp only: if_True)
qed


lemma is_double_int: "\<bar>k\<bar> < 2 ^ 53 \<Longrightarrow> is_double (of_int k)"
  unfolding is_double_def by (intro exI [of _ k] exI [of _ 0]) simp

lemma is_double_twice:
  assumes "is_double r" and "\<bar>r\<bar> < 2 ^ 1023"
  shows "is_double (2 * r)"
proof -
  from assms(1) obtain m e where m: "\<bar>m\<bar> < 2 ^ 53" and e: "- 1074 \<le> e" "e \<le> 971"
    and r: "r = of_int m * 2 powi e"
    by (auto simp: is_double_def)
  show ?thesis
  proof (cases "e < 971")
    case True
    have "2 * r = of_int m * 2 powi (e + 1)"
      by (simp add: r power_int_add)
    with m e True show ?thesis
      unfolding is_double_def by (intro exI [of _ m] exI [of _ "e + 1"]) simp
  next
    case False
    with e have e971: "e = 971" by simp
    have "of_int \<bar>m\<bar> * (2::real) powi 971 < 2 powi 1023"
      using assms(2) by (simp add: r e971 abs_mult)
    also have "(2::real) powi 1023 = of_int (2 ^ 52) * 2 powi 971"
      using powi2_split [of 971 1023] by simp
    finally have "(of_int \<bar>m\<bar> :: real) < of_int (2 ^ 52)"
      by (simp only: mult_less_cancel_right_pos zero_less_power_int zero_less_numeral)
    then have "\<bar>m\<bar> < 2 ^ 52"
      by (simp only: of_int_less_iff)
    then have "\<bar>2 * m\<bar> < 2 ^ 53"
      by simp
    moreover have "2 * r = of_int (2 * m) * 2 powi 971"
      by (simp add: r e971)
    ultimately show ?thesis
      unfolding is_double_def by (intro exI [of _ "2 * m"] exI [of _ 971]) simp
  qed
qed

text \<open>
  Rounding at work: a tie goes to the even significand, and a value below half of the
  least positive double goes to 0.
\<close>

lemma round_half_even_tie:
  "y = of_int f + 1 / 2 \<Longrightarrow> round_half_even y = (if even f then f else f + 1)"
proof -
  assume y: "y = of_int f + 1 / 2"
  have "\<lfloor>y\<rfloor> = f"
    unfolding y by (rule floor_unique) simp_all
  then show ?thesis
    by (simp add: round_half_even_def Let_def y)
qed

lemma round_half_even_down:
  "of_int f \<le> y \<Longrightarrow> y < of_int f + 1 / 2 \<Longrightarrow> round_half_even y = f"
proof -
  assume lo: "of_int f \<le> y" and hi: "y < of_int f + 1 / 2"
  have "\<lfloor>y\<rfloor> = f"
    using lo hi by (intro floor_unique) simp_all
  then show ?thesis
    using hi by (simp add: round_half_even_def Let_def)
qed

lemma double_exponent_eq:
  assumes "2 powi L \<le> a" and "a < 2 powi (L + 1)"
  shows "double_exponent a = max (L - 52) (- 1074)"
proof -
  have "0 < (2::real) powi L" by simp
  with assms(1) have "0 < a" by linarith
  then show ?thesis
    using assms by (simp add: double_exponent_log floor_log2_eq)
qed

lemma round_double_tie_example: "round_double 9007199515875289 = Fin 9007199515875288"
proof -
  have k: "double_exponent 9007199515875289 = 1"
    using double_exponent_eq [of 53 9007199515875289] by simp
  have "round_half_even (9007199515875289 / 2 powi 1) = 4503599757937644"
    using round_half_even_tie [of "9007199515875289 / 2 powi 1" 4503599757937644] by simp
  then have r: "of_int (round_half_even (9007199515875289 / 2 powi 1)) * 2 powi 1
      = (9007199515875288::real)"
    by simp
  show ?thesis
    using round_double_unfold [of 9007199515875289 9007199515875289 1 9007199515875288] k r
    by simp
qed

lemma round_double_underflow_example: "round_double (2 powi (- 1200)) = Fin 0"
proof -
  have k: "double_exponent (2 powi (- 1200)) = - 1074"
    using double_exponent_eq [of "- 1200" "2 powi (- 1200)"]
    by (simp only: order_refl powi2_less_iff)
  have q: "(2::real) powi (- 1200) / 2 powi (- 1074) = 2 powi (- 126)"
    by (simp add: power_int_diff [symmetric])
  have "(2::real) powi (- 126) < 1 / 2"
    using powi2_less_iff [of "- 126" "- 1"] by (simp add: power_int_minus)
  then have "round_half_even (2 powi (- 126)) = 0"
    by (intro round_half_even_down) simp_all
  then have r: "of_int (round_half_even (2 powi (- 1200) / 2 powi (- 1074))) * 2 powi (- 1074)
      = (0::real)"
    by (simp only: q of_int_0 mult_zero_left)
  have nz: "(2::real) powi (- 1200) \<noteq> 0" by simp
  have ab: "(2::real) powi (- 1200) = \<bar>2 powi (- 1200)\<bar>" by simp
  show ?thesis
    using round_double_unfold [OF nz ab k r] by simp
qed


text \<open>
  A finite result of rounding is a double, so the doubles are the fixed points of
  rounding, which makes \<open>is_double\<close> computable.
\<close>

lemma round_half_even_le: "y \<le> of_int n \<Longrightarrow> round_half_even y \<le> n"
proof -
  assume y: "y \<le> of_int n"
  then have fl: "\<lfloor>y\<rfloor> \<le> n"
    by (simp add: floor_le_iff)
  show ?thesis
  proof (cases "\<lfloor>y\<rfloor> = n")
    case True
    with y have "y = of_int n"
      using of_int_floor_le [of y] by linarith
    then show ?thesis
      by (simp add: round_half_even_int)
  next
    case False
    with fl have "\<lfloor>y\<rfloor> + 1 \<le> n" by simp
    then show ?thesis
      by (auto simp: round_half_even_def Let_def)
  qed
qed

lemma is_double_minus: "is_double x \<Longrightarrow> is_double (- x)"
proof -
  assume "is_double x"
  then obtain m e where "\<bar>m\<bar> < 2 ^ 53" "- 1074 \<le> e" "e \<le> 971" "x = of_int m * 2 powi e"
    by (auto simp: is_double_def)
  then show ?thesis
    unfolding is_double_def by (intro exI [of _ "- m"] exI [of _ e]) simp
qed

lemma round_double_is_double:
  assumes "round_double x = Fin r"
  shows "is_double r"
proof (cases "x = 0")
  case True
  with assms have "r = 0"
    by (simp add: round_double_def)
  then show ?thesis
    using is_double_int [of 0] by simp
next
  case False
  define a where "a = \<bar>x\<bar>"
  have "0 < a" using False by (simp add: a_def)
  define L where "L = \<lfloor>log 2 a\<rfloor>"
  define k where "k = double_exponent a"
  define m where "m = round_half_even (a / 2 powi k)"
  define rr :: real where "rr = of_int m * 2 powi k"
  have pos: "0 < (2::real) powi j" for j by simp
  have lo: "2 powi L \<le> a" and hi: "a < 2 powi (L + 1)"
    unfolding L_def using floor_log2_bounds [OF \<open>0 < a\<close>] by simp_all
  have k: "k = max (L - 52) (- 1074)"
    unfolding k_def L_def using \<open>0 < a\<close> by (rule double_exponent_log)
  have unf: "round_double x =
      (if 2 ^ 1024 \<le> rr then (if x < 0 then NegInf else PosInf) else Fin (if x < 0 then - rr else rr))"
    using False a_def k_def [symmetric] by (rule round_double_unfold) (simp add: rr_def m_def)
  with assms have small: "rr < 2 ^ 1024" and r: "r = (if x < 0 then - rr else rr)"
    by (auto split: if_splits)
  have "0 \<le> a / 2 powi k"
    using \<open>0 < a\<close> pos [of k] by simp
  then have "of_int 0 \<le> a / 2 powi k" by simp
  then have m0: "0 \<le> m"
    unfolding m_def by (rule round_half_even_ge)
  have "L + 1 \<le> k + 53"
    using k by simp
  then have "(2::real) powi (L + 1) \<le> 2 powi (k + 53)"
    by (simp only: powi2_le_iff)
  also have "\<dots> = of_int (2 ^ 53) * 2 powi k"
    using powi2_split [of k "k + 53"] by simp
  finally have "a < of_int (2 ^ 53) * 2 powi k"
    using hi by simp
  then have "a / 2 powi k \<le> of_int (2 ^ 53)"
    using pos [of k] by (simp add: field_simps)
  then have m53: "m \<le> 2 ^ 53"
    unfolding m_def by (rule round_half_even_le)
  have "is_double rr"
  proof (cases "m = 2 ^ 53")
    case True
    have "rr = 2 powi (k + 53)"
      using powi2_split [of k "k + 53"] by (simp add: rr_def True)
    with small have "(2::real) powi (k + 53) < 2 powi 1024"
      by simp
    then have "k + 53 < 1024"
      by (simp only: powi2_less_iff)
    then have c3: "k + 1 \<le> 971"
      by simp
    have "(2::real) powi (k + 53) = of_int (2 ^ 52) * 2 powi (k + 1)"
      using powi2_split [of "k + 1" "k + 53"] by simp
    with \<open>rr = 2 powi (k + 53)\<close> have c4: "rr = of_int (2 ^ 52) * 2 powi (k + 1)"
      by (simp only:)
    have c2: "- 1074 \<le> k + 1"
      using k by simp
    have c1: "\<bar>2 ^ 52\<bar> < (2::int) ^ 53"
      by simp
    from c1 c2 c3 c4 show ?thesis
      unfolding is_double_def by blast
  next
    case False
    with m0 m53 have m: "\<bar>m\<bar> < 2 ^ 53" by simp
    have "k \<le> 971"
    proof (rule ccontr)
      assume "\<not> k \<le> 971"
      then have big: "972 \<le> k" by simp
      with k have kL: "k = L - 52" by simp
      have "(2::real) powi L = of_int (2 ^ 52) * 2 powi k"
        using powi2_split [of k L] kL by simp
      with lo have "of_int (2 ^ 52) \<le> a / 2 powi k"
        using pos [of k] by (simp add: field_simps)
      then have "2 ^ 52 \<le> m"
        unfolding m_def by (rule round_half_even_ge)
      then have "(of_int (2 ^ 52) :: real) \<le> of_int m"
        by (simp only: of_int_le_iff)
      then have "(of_int (2 ^ 52) :: real) * 2 powi k \<le> rr"
        unfolding rr_def by (rule mult_right_mono) simp
      moreover have "(2::real) powi 1024 \<le> 2 powi (k + 52)"
        using big by (simp only: powi2_le_iff)
      moreover have "(2::real) powi (k + 52) = of_int (2 ^ 52) * 2 powi k"
        using powi2_split [of k "k + 52"] by simp
      ultimately have "(2::real) powi 1024 \<le> rr"
        by simp
      with small show False by simp
    qed
    moreover have "- 1074 \<le> k"
      using k by simp
    ultimately show ?thesis
      unfolding is_double_def using m rr_def by blast
  qed
  then show ?thesis
    using r is_double_minus [of rr] by simp
qed

lemma is_double_iff [code]: "is_double x \<longleftrightarrow> round_double x = Fin x"
  using round_double_exact [of x] round_double_is_double [of x x] by blast


text \<open>
  A finite result of rounding \<open>x\<close> is a double nearest to \<open>x\<close>: no double is nearer.
\<close>

lemma round_half_even_nearest: "\<bar>of_int (round_half_even y) - y\<bar> \<le> \<bar>of_int n - y\<bar>"
proof -
  define f where "f = \<lfloor>y\<rfloor>"
  have lo: "of_int f \<le> y" and hi: "y < of_int f + 1"
    unfolding f_def by linarith+
  have cases: "round_half_even y = f \<and> y - of_int f \<le> 1 / 2 \<or>
      round_half_even y = f + 1 \<and> 1 / 2 \<le> y - of_int f"
    by (auto simp: round_half_even_def Let_def f_def)
  show ?thesis
  proof (cases "n \<le> f")
    case True
    then have "(of_int n :: real) \<le> of_int f" by simp
    with cases lo hi show ?thesis by auto
  next
    case False
    then have "f + 1 \<le> n" by simp
    then have "(of_int (f + 1) :: real) \<le> of_int n" by (simp only: of_int_le_iff)
    then have "of_int f + 1 \<le> (of_int n :: real)" by simp
    with cases lo hi show ?thesis by auto
  qed
qed

lemma double_multiple:
  assumes "is_double d" and "- 1074 \<le> k" and "k = - 1074 \<or> 2 powi (k + 52) \<le> \<bar>d\<bar>"
  shows "\<exists>n. d = of_int n * 2 powi k"
proof -
  from assms(1) obtain m e where m: "\<bar>m\<bar> < 2 ^ 53" and e: "- 1074 \<le> e" "e \<le> 971"
    and d: "d = of_int m * 2 powi e"
    by (auto simp: is_double_def)
  have ke: "k \<le> e"
  proof (cases "k = - 1074")
    case True
    with e show ?thesis by simp
  next
    case False
    with assms(3) have "2 powi (k + 52) \<le> \<bar>d\<bar>" by simp
    also have "\<bar>d\<bar> = of_int \<bar>m\<bar> * 2 powi e"
      by (simp add: d abs_mult)
    also have "of_int \<bar>m\<bar> < (of_int (2 ^ 53) :: real)"
      using m by (simp only: of_int_less_iff)
    then have "of_int \<bar>m\<bar> * 2 powi e < (of_int (2 ^ 53) :: real) * 2 powi e"
      by (simp only: mult_less_cancel_right_pos zero_less_power_int zero_less_numeral)
    also have "(of_int (2 ^ 53) :: real) * 2 powi e = 2 powi (e + 53)"
      using powi2_split [of e "e + 53"] by simp
    finally have "k + 52 < e + 53"
      by (simp only: powi2_less_iff)
    then show ?thesis by simp
  qed
  have "d = of_int (m * 2 ^ nat (e - k)) * 2 powi k"
    unfolding d by (subst powi2_split [OF ke]) simp
  then show ?thesis ..
qed

lemma round_nearest_core:
  assumes "0 < a" and "is_double d"
  shows "\<bar>of_int (round_half_even (a / 2 powi double_exponent a)) * 2 powi double_exponent a - a\<bar>
          \<le> \<bar>d - a\<bar>"
proof -
  define L where "L = \<lfloor>log 2 a\<rfloor>"
  define k where "k = double_exponent a"
  define y where "y = a / 2 powi k"
  have pos: "0 < (2::real) powi j" for j by simp
  have lo: "2 powi L \<le> a"
    unfolding L_def using floor_log2_bounds(1) [OF assms(1)] .
  have k: "k = max (L - 52) (- 1074)"
    unfolding k_def L_def using assms(1) by (rule double_exponent_log)
  have a: "a = y * 2 powi k"
    using pos [of k] by (simp add: y_def)
  have scale: "\<bar>of_int n * 2 powi k - a\<bar> = \<bar>of_int n - y\<bar> * 2 powi k" for n
  proof -
    have "of_int n * 2 powi k - a = (of_int n - y) * 2 powi k"
      by (subst a) (simp add: algebra_simps)
    then show ?thesis
      using pos [of k] by (simp add: abs_mult)
  qed
  have mult: "\<bar>of_int (round_half_even y) * 2 powi k - a\<bar> \<le> \<bar>of_int n * 2 powi k - a\<bar>" for n
    unfolding scale using round_half_even_nearest [of y n] pos [of k]
    by (simp only: mult_le_cancel_right_pos)
  show ?thesis
  proof (cases "k = - 1074 \<or> 2 powi (k + 52) \<le> \<bar>d\<bar>")
    case True
    have "- 1074 \<le> k" using k by simp
    with assms(2) True obtain n where "d = of_int n * 2 powi k"
      using double_multiple by blast
    with mult [of n] show ?thesis
      by (simp only: k_def [symmetric] y_def [symmetric])
  next
    case False
    then have kk: "k \<noteq> - 1074" and small: "\<bar>d\<bar> < 2 powi (k + 52)"
      by simp_all
    from kk k have "k = L - 52" by simp
    then have B: "(2::real) powi L = of_int (2 ^ 52) * 2 powi k"
      using powi2_split [of k L] by simp
    from mult [of "2 ^ 52"] have "\<bar>of_int (round_half_even y) * 2 powi k - a\<bar> \<le> \<bar>2 powi L - a\<bar>"
      by (simp only: B)
    also have "\<dots> = a - 2 powi L"
      using lo by simp
    also have "\<dots> \<le> a - \<bar>d\<bar>"
      using small \<open>k = L - 52\<close> by simp
    also have "\<dots> \<le> \<bar>d - a\<bar>"
      by simp
    finally show ?thesis
      by (simp only: k_def [symmetric] y_def [symmetric])
  qed
qed

lemma round_double_nearest:
  assumes "round_double x = Fin r" and "is_double d"
  shows "\<bar>r - x\<bar> \<le> \<bar>d - x\<bar>"
proof (cases "x = 0")
  case True
  with assms(1) have "r = 0"
    by (simp add: round_double_def)
  with True show ?thesis by simp
next
  case False
  define a where "a = \<bar>x\<bar>"
  have "0 < a" using False by (simp add: a_def)
  define rr :: real
    where "rr = of_int (round_half_even (a / 2 powi double_exponent a)) * 2 powi double_exponent a"
  have "round_double x =
      (if 2 ^ 1024 \<le> rr then (if x < 0 then NegInf else PosInf) else Fin (if x < 0 then - rr else rr))"
    using False a_def refl rr_def [symmetric] by (rule round_double_unfold)
  with assms(1) have r: "r = (if x < 0 then - rr else rr)"
    by (auto split: if_splits)
  show ?thesis
  proof (cases "x < 0")
    case True
    have "\<bar>rr - a\<bar> \<le> \<bar>- d - a\<bar>"
      unfolding rr_def using \<open>0 < a\<close> is_double_minus [OF assms(2)] by (rule round_nearest_core)
    with True r show ?thesis
      by (simp add: a_def)
  next
    case False
    have "\<bar>rr - a\<bar> \<le> \<bar>d - a\<bar>"
      unfolding rr_def using \<open>0 < a\<close> assms(2) by (rule round_nearest_core)
    with False r show ?thesis
      by (simp add: a_def)
  qed
qed

lemma round_double_int: "\<bar>k\<bar> < 2 ^ 53 \<Longrightarrow> round_double (of_int k) = Fin (of_int k)"
  by (rule round_double_exact) (rule is_double_int)

lemma round_double_small:
  "round_double 2 = Fin 2" "round_double 6 = Fin 6" "round_double 20 = Fin 20"
  "round_double 25 = Fin 25"
  using round_double_int [of 2] round_double_int [of 6] round_double_int [of 20]
    round_double_int [of 25]
  by simp_all

lemma round_double_zero: "round_double 0 = Fin 0"
  by (simp add: round_double_def)

text \<open>
  The product of two numbers: exact when the exact product is a double, an infinity
  when it overflows. Doubling a double is exact up to the overflow.
\<close>

lemma num_mul_exact: "is_double (a * b) \<Longrightarrow> num_mul (Fin a) (Fin b) = Fin (a * b)"
  by (simp add: round_double_exact)

lemma num_mul_overflow:
  "2 ^ 1024 \<le> \<bar>a * b\<bar> \<Longrightarrow> num_mul (Fin a) (Fin b) = (if a * b < 0 then NegInf else PosInf)"
  by (simp only: num_mul.simps round_double_overflow)

lemma num_mul_two_exact:
  assumes "is_double r" and "\<bar>r\<bar> < 2 ^ 1023"
  shows "num_mul (Fin r) (Fin 2) = Fin (2 * r)"
proof -
  have "is_double (r * 2)"
    using is_double_twice [OF assms] by (simp add: mult.commute)
  then have "num_mul (Fin r) (Fin 2) = Fin (r * 2)"
    by (rule num_mul_exact)
  then show ?thesis
    by (simp add: mult.commute)
qed

lemma num_mul_two_overflow:
  assumes "2 ^ 1023 \<le> \<bar>r\<bar>"
  shows "num_mul (Fin r) (Fin 2) = (if r < 0 then NegInf else PosInf)"
proof -
  have "(2::real) ^ 1024 = 2 ^ 1023 * 2"
    by simp
  also have "\<dots> \<le> \<bar>r\<bar> * 2"
    using assms by (simp only: mult_le_cancel_right_pos zero_less_numeral)
  finally have "2 ^ 1024 \<le> \<bar>r * 2\<bar>"
    by (simp add: abs_mult)
  then have "num_mul (Fin r) (Fin 2) = (if r * 2 < 0 then NegInf else PosInf)"
    by (rule num_mul_overflow)
  moreover have "r * 2 < 0 \<longleftrightarrow> r < 0"
    by simp
  ultimately show ?thesis
    by (simp only:)
qed

text \<open>
  Four products as the doubles give them: the square of 94906267 is odd and lies
  half-way between two doubles; the square of \<open>2 ^ 600\<close> and twice the greatest double
  overflow; the square of \<open>2 ^ - 600\<close> underflows.
\<close>

lemma num_mul_rounds: "num_mul (Fin 94906267) (Fin 94906267) = Fin 9007199515875288"
  using round_double_tie_example by simp

lemma num_mul_square_overflows: "num_mul (Fin (2 ^ 600)) (Fin (2 ^ 600)) = PosInf"
proof -
  have "(2::real) ^ 1024 \<le> \<bar>2 ^ 600 * 2 ^ 600\<bar>"
    by simp
  then show ?thesis
    by (simp only: num_mul_overflow) simp
qed

lemma num_mul_max_overflows: "num_mul (Fin ((2 ^ 53 - 1) * 2 ^ 971)) (Fin 2) = PosInf"
proof -
  have "(2::real) ^ 1023 \<le> \<bar>(2 ^ 53 - 1) * 2 ^ 971\<bar>"
    by simp
  then show ?thesis
    by (simp only: num_mul_two_overflow) simp
qed

lemma num_mul_square_underflows:
  "num_mul (Fin (2 powi (- 600))) (Fin (2 powi (- 600))) = Fin 0"
proof -
  have "(2::real) powi (- 600) * 2 powi (- 600) = 2 powi (- 1200)"
    by (simp add: power_int_add [symmetric])
  then show ?thesis
    by (simp only: num_mul.simps round_double_underflow_example)
qed

subsection \<open>The claims\<close>

text \<open>
  C8. \<open>getDayType\<close> is defined on each of the seven days: it returns "Weekend" on
  Saturday and on Sunday, and "Weekday" on each of the other five days (and the two
  answers differ).
\<close>

theorem getDayType_total:
  "getDayType Saturday = lit ''Weekend'' \<and> getDayType Sunday = lit ''Weekend'' \<and>
   getDayType Monday = lit ''Weekday'' \<and> getDayType Tuesday = lit ''Weekday'' \<and>
   getDayType Wednesday = lit ''Weekday'' \<and> getDayType Thursday = lit ''Weekday'' \<and>
   getDayType Friday = lit ''Weekday'' \<and> lit ''Weekend'' \<noteq> lit ''Weekday''"
  by (simp add: getDayType_def lit_def)

text \<open>
  C3. On a text value \<open>processValue\<close> returns the length of the text in code units;
  on a numeric value it returns the value multiplied by 2, which is the product of
  doubles: for a finite value \<open>r\<close> the exact \<open>2 * r\<close> as long as that is in the range of
  the doubles, and the infinity of the sign of \<open>r\<close> beyond; NaN and the infinities give
  themselves. So "hello" gives 5 and 10 gives 20.
\<close>

theorem processValue_text_and_number:
  "processValue (JStr s) = Normal (Fin (real (length s))) \<and>
   processValue (JNum n) = Normal (num_mul n (Fin 2)) \<and>
   (is_double r \<and> \<bar>r\<bar> < 2 ^ 1023 \<longrightarrow> processValue (JNum (Fin r)) = Normal (Fin (2 * r))) \<and>
   (2 ^ 1023 \<le> \<bar>r\<bar> \<longrightarrow>
      processValue (JNum (Fin r)) = Normal (if r < 0 then NegInf else PosInf)) \<and>
   processValue (JNum NaN) = Normal NaN \<and>
   processValue (JNum PosInf) = Normal PosInf \<and>
   processValue (JNum NegInf) = Normal NegInf \<and>
   processValue (JStr (lit ''hello'')) = Normal (Fin 5) \<and>
   processValue (JNum (Fin 10)) = Normal (Fin 20)"
proof (intro conjI impI)
  assume "is_double r \<and> \<bar>r\<bar> < 2 ^ 1023"
  then have "num_mul (Fin r) (Fin 2) = Fin (2 * r)"
    by (intro num_mul_two_exact) simp_all
  then show "processValue (JNum (Fin r)) = Normal (Fin (2 * r))"
    by (simp only: processValue.simps)
next
  assume "2 ^ 1023 \<le> \<bar>r\<bar>"
  then have "num_mul (Fin r) (Fin 2) = (if r < 0 then NegInf else PosInf)"
    by (rule num_mul_two_overflow)
  then show "processValue (JNum (Fin r)) = Normal (if r < 0 then NegInf else PosInf)"
    by (simp only: processValue.simps)
next
  show "processValue (JNum (Fin 10)) = Normal (Fin 20)"
    by (simp add: round_double_small)
qed (simp_all add: lit_def)

theorem processValue_text_and_number_witness:
  "is_double 10 \<and> \<bar>10 :: real\<bar> < 2 ^ 1023 \<and>
   processValue (JNum (Fin 10)) = Normal (Fin (2 * 10)) \<and>
   (2 :: real) ^ 1023 \<le> \<bar>2 ^ 1023\<bar> \<and>
   processValue (JNum (Fin (2 ^ 1023))) = Normal PosInf"
proof -
  have d: "is_double 10"
    using is_double_int [of 10] by simp
  have b: "\<bar>10 :: real\<bar> < 2 ^ 1023"
    by simp
  have o: "(2 :: real) ^ 1023 \<le> \<bar>2 ^ 1023\<bar>"
    by simp
  from processValue_text_and_number [where r = 10] d b
  have "processValue (JNum (Fin 10)) = Normal (Fin (2 * 10))"
    by blast
  moreover from processValue_text_and_number [where r = "2 ^ 1023"] o
  have "processValue (JNum (Fin (2 ^ 1023))) = Normal (if (2 :: real) ^ 1023 < 0 then NegInf else PosInf)"
    by blast
  then have "processValue (JNum (Fin (2 ^ 1023))) = Normal PosInf"
    by simp
  ultimately show ?thesis
    using d b o by blast
qed

text \<open>
  The loop of \<open>filter\<close> appends to its accumulator the elements that satisfy the
  callback, in their order.
\<close>

lemma filter_loop_append: "filter_loop p xs A = A @ filter p xs"
  by (induction xs arbitrary: A) simp_all

lemma Array_filter_eq: "Array_filter p xs = filter p xs"
  by (simp add: Array_filter_def filter_loop_append)

text \<open>
  C6. For every sequence \<open>S\<close> of rated items, \<open>filterByRating S\<close> consists of exactly
  the elements of \<open>S\<close> whose rating is \<^verbatim>\<open>>= 4\<close>, in their original order; on the empty
  sequence it is the empty sequence. Of the ratings 4.5, 3.9, 4 and NaN, the first and
  the third are kept.
\<close>

theorem filterByRating_exact:
  "filterByRating S = filter (\<lambda>item. js_ge (rating item) (Fin 4)) S \<and>
   filterByRating [] = [] \<and>
   filterByRating
     [\<lparr>title = lit ''A'', rating = Fin 4.5\<rparr>, \<lparr>title = lit ''B'', rating = Fin 3.9\<rparr>,
      \<lparr>title = lit ''C'', rating = Fin 4\<rparr>, \<lparr>title = lit ''D'', rating = NaN\<rparr>]
     = [\<lparr>title = lit ''A'', rating = Fin 4.5\<rparr>, \<lparr>title = lit ''C'', rating = Fin 4\<rparr>]"
  by (simp add: filterByRating_def Array_filter_eq js_ge_def)

lemma FlattenIntoArray_zero: "FlattenIntoArray 0 xs = xs"
proof (induction xs)
  case Nil
  show ?case by simp
next
  case (Cons x xs)
  then show ?case by (cases x) simp_all
qed

lemma FlattenIntoArray_one_level: "FlattenIntoArray (Suc 0) (map Arr xss) = concat xss"
  by (induction xss) (simp_all add: FlattenIntoArray_zero)

text \<open>
  C7. Called with the sequences \<open>xss\<close>, \<open>concatenateArrays\<close> returns their elements in
  argument order, each sequence's elements in their order. An element that is itself
  a sequence is copied as it is (one level only). With no argument the result is
  empty; \<^verbatim>\<open>concatenate([1,2],[3],[4,5])\<close> is \<^verbatim>\<open>[1,2,3,4,5]\<close>.
\<close>

theorem concatenateArrays_one_level:
  "concatenateArrays (map Arr xss) = concat xss \<and>
   concatenateArrays [] = ([] :: 'a element list) \<and>
   concatenateArrays [Arr [Item (1::int), Item 2], Arr [Item 3], Arr [Item 4, Item 5]]
     = [Item 1, Item 2, Item 3, Item 4, Item 5] \<and>
   concatenateArrays [Arr [Arr [Item (1::int)], Item 2], Arr [Arr [Arr [Item 3]]]]
     = [Arr [Item 1], Item 2, Arr [Arr [Item 3]]]"
  by (simp add: concatenateArrays_def Array_flat_def FlattenIntoArray_one_level)

lemma decimal_2020: "decimal 2020 = ''2020''"
  by (simp add: decimal.simps digit_char_def)

text \<open>
  C9. A \<open>Car\<close> constructed with a make, a year and a model answers \<open>getInfo\<close> as the
  \<open>Vehicle\<close> of that make and year does, with "Make: ", the make, ", Year: " and the
  year as text; \<open>getModel\<close> answers "Model: " and the model. For Toyota, 2020,
  Corolla these are "Make: Toyota, Year: 2020" and "Model: Corolla".
\<close>

theorem Car_getInfo_getModel:
  "getInfo shortest (new_Car mk yr md) = getInfo shortest (new_Vehicle mk yr) \<and>
   getInfo shortest (new_Car mk yr md)
     = lit ''Make: '' @ mk @ lit '', Year: '' @ lit (Number_toString shortest yr) \<and>
   getModel (new_Car mk yr md) = lit ''Model: '' @ md \<and>
   getInfo shortest (new_Car (lit ''Toyota'') (Fin 2020) (lit ''Corolla''))
     = lit ''Make: Toyota, Year: 2020'' \<and>
   getModel (new_Car (lit ''Toyota'') (Fin 2020) (lit ''Corolla'')) = lit ''Model: Corolla''"
  by (simp add: getInfo_def getModel_def new_Car_def new_Vehicle_def Vehicle.defs Car.defs
      Number_toString_def is_safe_integer_def decimal_2020 lit_def)

text \<open>
  The relational operators on numbers other than NaN: every two of them are
  comparable, and \<^verbatim>\<open>>\<close> and \<^verbatim>\<open>>=\<close> compose as in a linear order.
\<close>

lemma IsLessThan_None_iff: "IsLessThan x y = None \<longleftrightarrow> x = NaN \<or> y = NaN"
  by (cases x; cases y) simp_all

lemma not_gt_imp_ge: "x \<noteq> NaN \<Longrightarrow> y \<noteq> NaN \<Longrightarrow> \<not> js_gt x y \<Longrightarrow> js_ge y x"
  using IsLessThan_None_iff [of y x] by (auto simp: js_gt_def js_ge_def)

lemma js_ge_refl: "x \<noteq> NaN \<Longrightarrow> js_ge x x"
  by (cases x) (simp_all add: js_ge_def)

lemma js_gt_ge_trans: "js_gt n r \<Longrightarrow> js_ge r a \<Longrightarrow> js_ge n a"
  by (cases n; cases r; cases a) (simp_all add: js_gt_def js_ge_def)

lemma js_gt_ge_less: "js_gt n r \<Longrightarrow> js_ge r a \<Longrightarrow> js_lt a n"
  by (cases n; cases r; cases a) (simp_all add: js_gt_def js_ge_def js_lt_def)

text \<open>
  One step of the reduction. If the accumulator is the first element of greatest price
  of the elements seen so far (\<open>L\<close>, at index \<open>i\<close>), then after the callback on the next
  element \<open>x\<close> it is the first element of greatest price of \<open>L @ [x]\<close>.
\<close>

lemma first_max_snoc:
  assumes i: "i < length L"
    and ge: "\<forall>j < length L. js_ge (price (L ! i)) (price (L ! j))"
    and lt: "\<forall>j < i. js_lt (price (L ! j)) (price (L ! i))"
    and x: "price x \<noteq> NaN" and r: "price (L ! i) \<noteq> NaN"
  shows "\<exists>k < length (L @ [x]).
           (if js_gt (price x) (price (L ! i)) then x else L ! i) = (L @ [x]) ! k \<and>
           (\<forall>j < length (L @ [x]). js_ge (price ((L @ [x]) ! k)) (price ((L @ [x]) ! j))) \<and>
           (\<forall>j < k. js_lt (price ((L @ [x]) ! j)) (price ((L @ [x]) ! k)))"
proof (cases "js_gt (price x) (price (L ! i))")
  case True
  have "\<forall>j < length (L @ [x]). js_ge (price x) (price ((L @ [x]) ! j))"
    using ge x True by (auto simp: nth_append less_Suc_eq js_ge_refl intro: js_gt_ge_trans)
  moreover have "\<forall>j < length L. js_lt (price ((L @ [x]) ! j)) (price x)"
    using ge True by (auto simp: nth_append intro: js_gt_ge_less)
  ultimately show ?thesis
    using True by (intro exI [of _ "length L"]) simp
next
  case False
  then have gex: "js_ge (price (L ! i)) (price x)"
    using x r by (simp add: not_gt_imp_ge)
  have "\<forall>j < length (L @ [x]). js_ge (price (L ! i)) (price ((L @ [x]) ! j))"
    using ge gex by (auto simp: nth_append less_Suc_eq)
  moreover have "\<forall>j < i. js_lt (price ((L @ [x]) ! j)) (price (L ! i))"
    using lt i by (auto simp: nth_append)
  ultimately show ?thesis
    using False i by (intro exI [of _ i]) (simp add: nth_append)
qed

lemma reduce_first_max:
  assumes "\<forall>p \<in> set (a # xs). price p \<noteq> NaN"
  shows "\<exists>i < length (a # xs).
           foldl (\<lambda>max item. if js_gt (price item) (price max) then item else max) a xs
             = (a # xs) ! i \<and>
           (\<forall>j < length (a # xs). js_ge (price ((a # xs) ! i)) (price ((a # xs) ! j))) \<and>
           (\<forall>j < i. js_lt (price ((a # xs) ! j)) (price ((a # xs) ! i)))"
  using assms
proof (induction xs rule: rev_induct)
  case Nil
  then show ?case by (simp add: js_ge_refl)
next
  case (snoc x xs)
  let ?L = "a # xs"
  from snoc.prems have cmp: "\<forall>p \<in> set ?L. price p \<noteq> NaN" and x: "price x \<noteq> NaN"
    by simp_all
  from snoc.IH [OF cmp] obtain i where i: "i < length ?L"
    and r: "foldl (\<lambda>max item. if js_gt (price item) (price max) then item else max) a xs = ?L ! i"
    and ge: "\<forall>j < length ?L. js_ge (price (?L ! i)) (price (?L ! j))"
    and lt: "\<forall>j < i. js_lt (price (?L ! j)) (price (?L ! i))"
    by blast
  have ri: "price (?L ! i) \<noteq> NaN"
    using cmp i nth_mem by blast
  have step: "foldl (\<lambda>max item. if js_gt (price item) (price max) then item else max) a (xs @ [x])
      = (if js_gt (price x) (price (?L ! i)) then x else ?L ! i)"
    by (simp only: foldl_append foldl.simps r)
  have L': "a # xs @ [x] = ?L @ [x]" by simp
  show ?case
    unfolding L' step by (rule first_max_snoc [OF i ge lt x ri])
qed

lemma getMostExpensiveProduct_nonempty:
  assumes "products \<noteq> []" and "\<forall>p \<in> set products. price p \<noteq> NaN"
  shows "\<exists>i < length products.
           getMostExpensiveProduct products = Normal (Some (products ! i)) \<and>
           (\<forall>j < length products. js_ge (price (products ! i)) (price (products ! j))) \<and>
           (\<forall>j < i. js_lt (price (products ! j)) (price (products ! i)))"
proof -
  from assms(1) obtain a xs where ps: "products = a # xs"
    by (cases products) simp_all
  have res: "getMostExpensiveProduct (a # xs) = Normal (Some
      (foldl (\<lambda>max item. if js_gt (price item) (price max) then item else max) a xs))"
    by (simp add: getMostExpensiveProduct_def Array_reduce_def)
  from assms(2) have "\<forall>p \<in> set (a # xs). price p \<noteq> NaN"
    by (simp only: ps)
  from reduce_first_max [OF this] obtain i where "i < length (a # xs)"
    and "foldl (\<lambda>max item. if js_gt (price item) (price max) then item else max) a xs
           = (a # xs) ! i"
    and "\<forall>j < length (a # xs). js_ge (price ((a # xs) ! i)) (price ((a # xs) ! j))"
    and "\<forall>j < i. js_lt (price ((a # xs) ! j)) (price ((a # xs) ! i))"
    by blast
  moreover from this(2) have "getMostExpensiveProduct (a # xs) = Normal (Some ((a # xs) ! i))"
    by (simp only: res)
  ultimately show ?thesis
    unfolding ps by blast
qed

text \<open>
  C5. \<open>getMostExpensiveProduct\<close> returns \<^verbatim>\<open>null\<close>, and no error, on the empty sequence.
  On a non-empty sequence of products (whose prices are comparable numbers, none of
  them NaN, as the data model has it) it returns an element of greatest price, and the
  first such element: every element before it has a strictly smaller price.
\<close>

theorem getMostExpensiveProduct_first_max:
  "getMostExpensiveProduct [] = Normal None \<and>
   (products \<noteq> [] \<and> (\<forall>p \<in> set products. price p \<noteq> NaN) \<longrightarrow>
     (\<exists>i < length products.
        getMostExpensiveProduct products = Normal (Some (products ! i)) \<and>
        (\<forall>j < length products. js_ge (price (products ! i)) (price (products ! j))) \<and>
        (\<forall>j < i. js_lt (price (products ! j)) (price (products ! i)))))"
proof (intro conjI impI)
  show "getMostExpensiveProduct [] = Normal None"
    by (simp add: getMostExpensiveProduct_def)
next
  assume "products \<noteq> [] \<and> (\<forall>p \<in> set products. price p \<noteq> NaN)"
  then show "\<exists>i < length products.
        getMostExpensiveProduct products = Normal (Some (products ! i)) \<and>
        (\<forall>j < length products. js_ge (price (products ! i)) (price (products ! j))) \<and>
        (\<forall>j < i. js_lt (price (products ! j)) (price (products ! i)))"
    by (intro getMostExpensiveProduct_nonempty) simp_all
qed

theorem getMostExpensiveProduct_first_max_witness:
  "[\<lparr>name = lit ''A'', price = Fin 10\<rparr>, \<lparr>name = lit ''B'', price = Fin 10\<rparr>] \<noteq> [] \<and>
   price \<lparr>name = lit ''A'', price = Fin 10\<rparr> \<noteq> NaN \<and>
   price \<lparr>name = lit ''B'', price = Fin 10\<rparr> \<noteq> NaN \<and>
   getMostExpensiveProduct [\<lparr>name = lit ''A'', price = Fin 10\<rparr>, \<lparr>name = lit ''B'', price = Fin 10\<rparr>]
     = Normal (Some \<lparr>name = lit ''A'', price = Fin 10\<rparr>)"
proof -
  let ?A = "\<lparr>name = lit ''A'', price = Fin 10\<rparr>"
  let ?B = "\<lparr>name = lit ''B'', price = Fin 10\<rparr>"
  have h1: "[?A, ?B] \<noteq> []" by simp
  have h2: "price ?A \<noteq> NaN" by simp
  have h3: "price ?B \<noteq> NaN" by simp
  have hyp: "[?A, ?B] \<noteq> [] \<and> (\<forall>p \<in> set [?A, ?B]. price p \<noteq> NaN)" by simp
  from getMostExpensiveProduct_first_max [of "[?A, ?B]"] hyp
  obtain i where i: "i < length [?A, ?B]"
    and res: "getMostExpensiveProduct [?A, ?B] = Normal (Some ([?A, ?B] ! i))"
    and first: "\<forall>j < i. js_lt (price ([?A, ?B] ! j)) (price ([?A, ?B] ! i))"
    by blast
  have "i = 0"
  proof (rule ccontr)
    assume "i \<noteq> 0"
    with i have "i = 1" by simp
    with first have "js_lt (price ([?A, ?B] ! 0)) (price ([?A, ?B] ! 1))" by simp
    then show False by (simp add: js_lt_def)
  qed
  with res have "getMostExpensiveProduct [?A, ?B] = Normal (Some ?A)" by simp
  with h1 h2 h3 show ?thesis by blast
qed


text \<open>
  C10. On a non-empty sequence of products (prices comparable, as above) the product
  returned is an element of the sequence, and its price is greater than or equal to
  the price of every element.
\<close>

theorem getMostExpensiveProduct_member_max:
  assumes "products \<noteq> []" and "\<forall>p \<in> set products. price p \<noteq> NaN"
  shows "\<exists>m. getMostExpensiveProduct products = Normal (Some m) \<and> m \<in> set products \<and>
           (\<forall>p \<in> set products. js_ge (price m) (price p))"
proof -
  from getMostExpensiveProduct_nonempty [OF assms] obtain i where i: "i < length products"
    and res: "getMostExpensiveProduct products = Normal (Some (products ! i))"
    and ge: "\<forall>j < length products. js_ge (price (products ! i)) (price (products ! j))"
    by blast
  have "js_ge (price (products ! i)) (price p)" if "p \<in> set products" for p
  proof -
    from that obtain j where "j < length products" and "products ! j = p"
      by (auto simp: in_set_conv_nth)
    with ge show ?thesis by blast
  qed
  moreover have "products ! i \<in> set products"
    using i by (rule nth_mem)
  ultimately show ?thesis
    using res by blast
qed


theorem getMostExpensiveProduct_member_max_witness:
  "[\<lparr>name = lit ''A'', price = Fin 10\<rparr>, \<lparr>name = lit ''B'', price = Fin 30\<rparr>,
    \<lparr>name = lit ''C'', price = Fin 20\<rparr>] \<noteq> [] \<and>
   price \<lparr>name = lit ''A'', price = Fin 10\<rparr> \<noteq> NaN \<and>
   price \<lparr>name = lit ''B'', price = Fin 30\<rparr> \<noteq> NaN \<and>
   price \<lparr>name = lit ''C'', price = Fin 20\<rparr> \<noteq> NaN \<and>
   getMostExpensiveProduct
     [\<lparr>name = lit ''A'', price = Fin 10\<rparr>, \<lparr>name = lit ''B'', price = Fin 30\<rparr>,
      \<lparr>name = lit ''C'', price = Fin 20\<rparr>] = Normal (Some \<lparr>name = lit ''B'', price = Fin 30\<rparr>)"
proof -
  let ?A = "\<lparr>name = lit ''A'', price = Fin 10\<rparr>"
  let ?B = "\<lparr>name = lit ''B'', price = Fin 30\<rparr>"
  let ?C = "\<lparr>name = lit ''C'', price = Fin 20\<rparr>"
  have h1: "[?A, ?B, ?C] \<noteq> []" by simp
  have h2: "price ?A \<noteq> NaN" by simp
  have h3: "price ?B \<noteq> NaN" by simp
  have h4: "price ?C \<noteq> NaN" by simp
  have hyp: "\<forall>p \<in> set [?A, ?B, ?C]. price p \<noteq> NaN" by simp
  from getMostExpensiveProduct_member_max [OF h1 hyp]
  obtain m where res: "getMostExpensiveProduct [?A, ?B, ?C] = Normal (Some m)"
    and mem: "m \<in> set [?A, ?B, ?C]"
    and ge: "\<forall>p \<in> set [?A, ?B, ?C]. js_ge (price m) (price p)"
    by blast
  from ge have geB: "js_ge (price m) (Fin 30)" by simp
  from mem have "m = ?A \<or> m = ?B \<or> m = ?C" by simp
  then have "m = ?B"
  proof (elim disjE)
    assume "m = ?A"
    with geB have "js_ge (Fin 10) (Fin 30)" by simp
    then show ?thesis by (simp add: js_ge_def)
  next
    assume "m = ?B"
    then show ?thesis .
  next
    assume "m = ?C"
    with geB have "js_ge (Fin 20) (Fin 30)" by simp
    then show ?thesis by (simp add: js_ge_def)
  qed
  with res have "getMostExpensiveProduct [?A, ?B, ?C] = Normal (Some ?B)" by simp
  with h1 h2 h3 h4 show ?thesis by blast
qed

text \<open>
  The condition on the prices is needed: NaN compares false with every number, so a
  product whose price is NaN, once it is the accumulator, is never replaced.
\<close>

lemma getMostExpensiveProduct_NaN:
  "getMostExpensiveProduct [\<lparr>name = lit ''A'', price = NaN\<rparr>, \<lparr>name = lit ''B'', price = Fin 5\<rparr>]
     = Normal (Some \<lparr>name = lit ''A'', price = NaN\<rparr>) \<and> \<not> js_ge NaN (Fin 5)"
  by (simp add: getMostExpensiveProduct_def Array_reduce_def js_gt_def js_ge_def)

text \<open>
  C1. For every number \<open>n < 0\<close> the call \<open>squareAsync n\<close> returns normally (nothing is
  thrown to the caller) a promise that is already rejected, with the error of the
  source, \<^verbatim>\<open>Error("Negative number not allowed")\<close>, which the specification calls
  NegativeInput. No timer is scheduled, and the promise stays rejected at every time.
\<close>

theorem squareAsync_negative:
  "js_lt n (Fin 0) \<Longrightarrow>
   squareAsync n
     = Normal \<lparr>pstate = Rejected (Error (lit ''Negative number not allowed'')), ptimers = []\<rparr> \<and>
   run_timers t \<lparr>pstate = Rejected (Error (lit ''Negative number not allowed'')), ptimers = []\<rparr>
     = Rejected (Error (lit ''Negative number not allowed''))"
  by (simp add: squareAsync_def squareAsync_body_def run_timers_def)

theorem squareAsync_negative_witness:
  "js_lt (Fin (- 1)) (Fin 0) \<and>
   squareAsync (Fin (- 1))
     = Normal \<lparr>pstate = Rejected (Error (lit ''Negative number not allowed'')), ptimers = []\<rparr>"
proof -
  have h: "js_lt (Fin (- 1)) (Fin 0)" by (simp add: js_lt_def)
  from squareAsync_negative [OF h] have "squareAsync (Fin (- 1))
     = Normal \<lparr>pstate = Rejected (Error (lit ''Negative number not allowed'')), ptimers = []\<rparr>"
    by (rule conjunct1)
  with h show ?thesis by (rule conjI)
qed

lemma js_ge_not_lt: "js_ge x y \<Longrightarrow> \<not> js_lt x y"
  by (simp add: js_ge_def js_lt_def)

text \<open>
  C2. For every number \<open>n >= 0\<close> the call \<open>squareAsync n\<close> returns a pending promise with
  one timer of 1000 milliseconds. The promise is pending before the timer has run and
  fulfilled with \<open>n * n\<close> once it has; it is never rejected.
\<close>

theorem squareAsync_nonnegative:
  "js_ge n (Fin 0) \<Longrightarrow>
   squareAsync n = Normal \<lparr>pstate = Pending, ptimers = [(1000, num_mul n n)]\<rparr> \<and>
   run_timers t \<lparr>pstate = Pending, ptimers = [(1000, num_mul n n)]\<rparr>
     = (if 1000 \<le> t then Fulfilled (num_mul n n) else Pending) \<and>
   run_timers t \<lparr>pstate = Pending, ptimers = [(1000, num_mul n n)]\<rparr> \<noteq> Rejected e"
  by (simp add: squareAsync_def squareAsync_body_def run_timers_def js_ge_not_lt)

theorem squareAsync_nonnegative_witness:
  "js_ge (Fin 5) (Fin 0) \<and>
   squareAsync (Fin 5) = Normal \<lparr>pstate = Pending, ptimers = [(1000, Fin 25)]\<rparr> \<and>
   run_timers 999 \<lparr>pstate = Pending, ptimers = [(1000, Fin 25)]\<rparr> = Pending \<and>
   run_timers 1000 \<lparr>pstate = Pending, ptimers = [(1000, Fin 25)]\<rparr> = Fulfilled (Fin 25)"
proof -
  have h: "js_ge (Fin 5) (Fin 0)" by (simp add: js_ge_def)
  have sq: "num_mul (Fin 5) (Fin 5) = Fin 25" by (simp add: round_double_small)
  from squareAsync_nonnegative [OF h, of 999] squareAsync_nonnegative [OF h, of 1000] h
  show ?thesis unfolding sq by simp
qed

text \<open>
  The values that the doubles give: \<^verbatim>\<open>squareAsync(94906267)\<close> resolves with the rounded
  square, \<^verbatim>\<open>squareAsync(2 ** 600)\<close> with \<^verbatim>\<open>Infinity\<close>, and \<^verbatim>\<open>squareAsync(2 ** -600)\<close> with 0.
\<close>

lemma squareAsync_rounded:
  "run_timers 1000 \<lparr>pstate = Pending, ptimers = [(1000, num_mul (Fin 94906267) (Fin 94906267))]\<rparr>
     = Fulfilled (Fin 9007199515875288)"
  "run_timers 1000 \<lparr>pstate = Pending, ptimers = [(1000, num_mul (Fin (2 ^ 600)) (Fin (2 ^ 600)))]\<rparr>
     = Fulfilled PosInf"
  "run_timers 1000
     \<lparr>pstate = Pending, ptimers = [(1000, num_mul (Fin (2 powi (- 600))) (Fin (2 powi (- 600))))]\<rparr>
     = Fulfilled (Fin 0)"
  by (simp_all only: num_mul_rounds num_mul_square_overflows num_mul_square_underflows)
    (simp_all add: run_timers_def)

text \<open>
  C4, as stated: a value that is neither text nor numeric makes \<open>processValue\<close> fail with
  a type error instead of being coerced. This fails on \<^verbatim>\<open>true\<close>, which is coerced to 1 and
  gives 2.
\<close>

theorem processValue_boolean_coerced:
  "typeof (JBool True) \<noteq> TString \<and> typeof (JBool True) \<noteq> TNumber \<and>
   processValue (JBool True) = Normal (Fin 2)"
  by (simp add: round_double_small)

text \<open>
  C4, amended. \<open>processValue\<close> has no type check of its own and no error of its own.
  On a text or numeric value, the only values its parameter type admits, it returns
  a number and does not fail. A value of another type that reaches it takes the
  numeric branch \<^verbatim>\<open>value * 2\<close>: \<^verbatim>\<open>undefined\<close>, \<^verbatim>\<open>null\<close> and the booleans are coerced and a
  number is returned (NaN, 0, and 2 or 0); a symbol or a bigint makes \<^verbatim>\<open>*\<close> throw the
  language's TypeError; an object is converted by the language, and the result is
  twice the number of the conversion (6 for \<^verbatim>\<open>[3]\<close>, NaN for \<^verbatim>\<open>{}\<close>) or the exception that
  the conversion throws (a TypeError for \<^verbatim>\<open>Object.create(null)\<close>).
\<close>

theorem processValue_no_type_check:
  "(typeof v = TString \<or> typeof v = TNumber \<longrightarrow> (\<exists>r. processValue v = Normal r)) \<and>
   processValue JUndefined = Normal NaN \<and>
   processValue JNull = Normal (Fin 0) \<and>
   processValue (JBool True) = Normal (Fin 2) \<and>
   processValue (JBool False) = Normal (Fin 0) \<and>
   processValue JSymbol = Throw TypeError \<and>
   processValue (JBigInt i) = Throw TypeError \<and>
   processValue (JObject callable (Normal x)) = Normal (num_mul x (Fin 2)) \<and>
   processValue (JObject callable (Throw e)) = Throw e \<and>
   processValue (JObject False (Normal (Fin 3))) = Normal (Fin 6) \<and>
   processValue (JObject False (Normal NaN)) = Normal NaN \<and>
   processValue (JObject False (Throw TypeError)) = Throw TypeError"
proof (intro conjI impI)
  assume "typeof v = TString \<or> typeof v = TNumber"
  then show "\<exists>r. processValue v = Normal r"
    by (cases v) (simp_all split: if_splits)
qed (simp_all add: round_double_small round_double_zero)

theorem processValue_no_type_check_witness:
  "typeof (JNum (Fin 10)) = TNumber \<and> (\<exists>r. processValue (JNum (Fin 10)) = Normal r) \<and>
   typeof (JStr (lit ''hello'')) = TString \<and> (\<exists>r. processValue (JStr (lit ''hello'')) = Normal r)"
proof -
  have n: "typeof (JNum (Fin 10)) = TNumber" and s: "typeof (JStr (lit ''hello'')) = TString"
    by simp_all
  from processValue_no_type_check [of "JNum (Fin 10)"] n
  have "\<exists>r. processValue (JNum (Fin 10)) = Normal r" by blast
  moreover from processValue_no_type_check [of "JStr (lit ''hello'')"] s
  have "\<exists>r. processValue (JStr (lit ''hello'')) = Normal r" by blast
  ultimately show ?thesis using n s by blast
qed

end
